theory Spec2Isabelle
  imports Main "HOL-Library.AList"
begin

section \<open>Python values used by the pipeline\<close>

text \<open>
  The script \<^verbatim>\<open>from-git-to-databricks.py\<close> is embedded function by function.
  A Python \<^verbatim>\<open>str\<close> is a list of code points, a \<^verbatim>\<open>bytes\<close> value a list of byte
  values; \<open>str_of\<close> turns a literal into its code points.
  A Python \<^verbatim>\<open>dict\<close> of strings is an association list in insertion order with
  distinct keys: \<^verbatim>\<open>d[k] = v\<close> is \<^const>\<open>AList.update\<close> (an existing key keeps its
  place, a new key goes to the end) and \<^verbatim>\<open>d.get(k)\<close> is \<^const>\<open>map_of\<close>.
  Exceptions are values of the type \<open>error\<close>, carried in the left summand;
  \<open>EnvironmentError\<close> is the one that \<^verbatim>\<open>get_config\<close> raises, with the names of the
  missing variables, and \<open>OtherError\<close> any exception that no handler of the
  script names.
\<close>

type_synonym str = "nat list"

type_synonym bytes = "nat list"

type_synonym dict = "(str \<times> str) list"

datatype error =
  EnvironmentError "str list" | OSError | UnicodeEncodeError | UnicodeDecodeError | OtherError

definition str_of :: "string \<Rightarrow> str" where
  "str_of s = map of_char s"

definition LF :: nat where
  "LF = 0x0A"

definition CR :: nat where
  "CR = 0x0D"

definition EQ :: nat where
  \<comment> \<open>the character \<^verbatim>\<open>=\<close>\<close>
  "EQ = 0x3D"

definition py_isspace :: "nat \<Rightarrow> bool" where
  \<comment> \<open>\<^verbatim>\<open>str.isspace\<close> on one code point\<close>
  "py_isspace c =
     ((0x09 \<le> c \<and> c \<le> 0x0D) \<or> (0x1C \<le> c \<and> c \<le> 0x20) \<or> c = 0x85 \<or> c = 0xA0
      \<or> c = 0x1680 \<or> (0x2000 \<le> c \<and> c \<le> 0x200A) \<or> c = 0x2028 \<or> c = 0x2029
      \<or> c = 0x202F \<or> c = 0x205F \<or> c = 0x3000)"

definition strip :: "str \<Rightarrow> str" where
  \<comment> \<open>\<^verbatim>\<open>str.strip()\<close>\<close>
  "strip s = rev (dropWhile py_isspace (rev (dropWhile py_isspace s)))"

definition split_eq1 :: "str \<Rightarrow> str \<times> str" where
  \<comment> \<open>\<^verbatim>\<open>s.split("=", 1)\<close> on a string that holds an \<^verbatim>\<open>=\<close>: the text before
      the first one, and everything after it\<close>
  "split_eq1 s = (takeWhile (\<lambda>c. c \<noteq> EQ) s, tl (dropWhile (\<lambda>c. c \<noteq> EQ) s))"

fun universal_newlines :: "str \<Rightarrow> str" where
  \<comment> \<open>text mode \<^verbatim>\<open>open(f, "r")\<close> reads \<^verbatim>\<open>\r\n\<close> and a lone \<^verbatim>\<open>\r\<close> as \<^verbatim>\<open>\n\<close>\<close>
  "universal_newlines [] = []"
| "universal_newlines [c] = (if c = CR then [LF] else [c])"
| "universal_newlines (c # d # r) =
     (if c = CR then (if d = LF then LF # universal_newlines r else LF # universal_newlines (d # r))
      else c # universal_newlines (d # r))"

fun lines_from :: "str \<Rightarrow> str \<Rightarrow> str list" where
  \<comment> \<open>\<^verbatim>\<open>for line in f\<close>: each line keeps its terminating \<^verbatim>\<open>\n\<close>; the first
      argument is the line read so far\<close>
  "lines_from cur [] = (if cur = [] then [] else [cur])"
| "lines_from cur (c # r) =
     (if c = LF then (cur @ [c]) # lines_from [] r else lines_from (cur @ [c]) r)"

definition file_lines :: "str \<Rightarrow> str list" where
  "file_lines s = lines_from [] (universal_newlines s)"


section \<open>The codec of a text-mode file\<close>

text \<open>
  \<^verbatim>\<open>open(f, "w")\<close> and \<^verbatim>\<open>open(f, "r")\<close> use the codec of the locale with
  \<^verbatim>\<open>errors="strict"\<close>: a character the codec cannot encode makes \<^verbatim>\<open>f.write\<close> raise
  \<^verbatim>\<open>UnicodeEncodeError\<close>, bytes it cannot decode make the read raise
  \<^verbatim>\<open>UnicodeDecodeError\<close>. The codec is a parameter of the model; it encodes
  character by character, as UTF-8 and the 8-bit code pages do. UTF-8 is
  written out as the instance that the examples use: it has no encoding for the
  lone surrogates that \<^verbatim>\<open>os.fsdecode\<close> puts into the name of a file whose name is
  not valid UTF-8.
\<close>

record codec =
  encode_char :: "nat \<Rightarrow> bytes option"
  decode :: "bytes \<Rightarrow> str option"

definition encode :: "codec \<Rightarrow> str \<Rightarrow> bytes option" where
  "encode cd s = map_option concat (those (map (encode_char cd) s))"

definition lossless :: "codec \<Rightarrow> bool" where
  \<comment> \<open>decoding gives back what was encoded\<close>
  "lossless cd = (\<forall>s bs. encode cd s = Some bs \<longrightarrow> decode cd bs = Some s)"

definition continuation :: "nat \<Rightarrow> bool" where
  "continuation b = (0x80 \<le> b \<and> b < 0xC0)"

definition surrogate :: "nat \<Rightarrow> bool" where
  "surrogate c = (0xD800 \<le> c \<and> c \<le> 0xDFFF)"

definition utf8_encode_char :: "nat \<Rightarrow> bytes option" where
  "utf8_encode_char c =
     (if c < 0x80 then Some [c]
      else if c < 0x800 then Some [0xC0 + c div 64, 0x80 + c mod 64]
      else if c < 0x10000 then
        (if surrogate c then None
         else Some [0xE0 + c div 4096, 0x80 + c div 64 mod 64, 0x80 + c mod 64])
      else if c < 0x110000 then
        Some [0xF0 + c div 262144, 0x80 + c div 4096 mod 64, 0x80 + c div 64 mod 64,
              0x80 + c mod 64]
      else None)"

fun utf8_decode :: "bytes \<Rightarrow> str option" where
  "utf8_decode [] = Some []"
| "utf8_decode (b # bs) =
     (if b < 0x80 then map_option (Cons b) (utf8_decode bs)
      else if 0xC2 \<le> b \<and> b < 0xE0 then
        (case bs of
           b1 # r \<Rightarrow>
             if continuation b1
             then map_option (Cons ((b - 0xC0) * 64 + (b1 - 0x80))) (utf8_decode r)
             else None
         | _ \<Rightarrow> None)
      else if 0xE0 \<le> b \<and> b < 0xF0 then
        (case bs of
           b1 # b2 # r \<Rightarrow>
             (let c = (b - 0xE0) * 4096 + (b1 - 0x80) * 64 + (b2 - 0x80)
              in if continuation b1 \<and> continuation b2 \<and> 0x800 \<le> c \<and> \<not> surrogate c
                 then map_option (Cons c) (utf8_decode r) else None)
         | _ \<Rightarrow> None)
      else if 0xF0 \<le> b \<and> b < 0xF5 then
        (case bs of
           b1 # b2 # b3 # r \<Rightarrow>
             (let c = (b - 0xF0) * 262144 + (b1 - 0x80) * 4096 + (b2 - 0x80) * 64 + (b3 - 0x80)
              in if continuation b1 \<and> continuation b2 \<and> continuation b3
                    \<and> 0x10000 \<le> c \<and> c < 0x110000
                 then map_option (Cons c) (utf8_decode r) else None)
         | _ \<Rightarrow> None)
      else None)"

definition utf8 :: codec where
  "utf8 = \<lparr>encode_char = utf8_encode_char, decode = utf8_decode\<rparr>"


section \<open>ChecksumTracker\<close>

text \<open>
  The checksum file is the only file the tracker touches; its state is
  \<open>None\<close> when it does not exist and \<open>Some bs\<close>, its bytes, otherwise.
\<close>

type_synonym store_file = "bytes option"

record tracker =
  old_checksums :: dict
  new_checksums :: dict

definition load_line :: "dict \<Rightarrow> str \<Rightarrow> dict" where
  \<comment> \<open>the body of the loop of \<^verbatim>\<open>_load\<close>\<close>
  "load_line old line =
     (if EQ \<in> set line
      then (case split_eq1 (strip line) of (file_path, checksum) \<Rightarrow>
              AList.update file_path checksum old)
      else old)"

datatype read_fault = Readable | Unreadable

definition load :: "codec \<Rightarrow> read_fault \<Rightarrow> store_file \<Rightarrow> error + dict" where
  \<comment> \<open>\<^verbatim>\<open>ChecksumTracker._load\<close>, from an empty \<^verbatim>\<open>old_checksums\<close>: the dictionary
      read, or the exception of a file that exists and cannot be opened, or that
      does not decode\<close>
  "load cd rf sf =
     (case sf of
        None \<Rightarrow> Inr []
      | Some bs \<Rightarrow>
          (case rf of
             Unreadable \<Rightarrow> Inl OSError
           | Readable \<Rightarrow>
               (case decode cd bs of
                  None \<Rightarrow> Inl UnicodeDecodeError
                | Some s \<Rightarrow> Inr (foldl load_line [] (file_lines s)))))"

definition ChecksumTracker :: "codec \<Rightarrow> read_fault \<Rightarrow> store_file \<Rightarrow> error + tracker" where
  \<comment> \<open>\<^verbatim>\<open>ChecksumTracker.__init__\<close>\<close>
  "ChecksumTracker cd rf sf =
     (case load cd rf sf of
        Inl e \<Rightarrow> Inl e
      | Inr old \<Rightarrow> Inr \<lparr>old_checksums = old, new_checksums = []\<rparr>)"

definition store_line :: "str \<times> str \<Rightarrow> str" where
  \<comment> \<open>\<^verbatim>\<open>f"{file_path}={checksum}\n"\<close>\<close>
  "store_line e = fst e @ [EQ] @ snd e @ [LF]"

text \<open>
  \<^verbatim>\<open>save\<close> opens the checksum file with mode \<^verbatim>\<open>"w"\<close>, which truncates it at
  once, and then writes one line per entry; on POSIX a \<^verbatim>\<open>\n\<close> is written as it
  is. Each \<^verbatim>\<open>f.write\<close> encodes its line into the buffer of the file, and the
  buffer reaches the disk when it is flushed, at the latest when the \<^verbatim>\<open>with\<close>
  block is left. A fault says what the operating system refuses: the
  \<^verbatim>\<open>open\<close>, or every byte after the first \<open>n\<close> (a full disk): then the first
  \<open>n\<close> bytes are in the file, wherever in a line they end, and an \<^verbatim>\<open>OSError\<close>
  is raised.
\<close>

datatype save_fault = NoFault | OpenFails | DiskFails nat

fun write_entries :: "codec \<Rightarrow> dict \<Rightarrow> bytes \<Rightarrow> error option \<times> bytes" where
  \<comment> \<open>the loop of \<^verbatim>\<open>save\<close>: the entries left and the bytes written so far; it
      ends at the first line that the codec cannot encode\<close>
  "write_entries cd [] buf = (None, buf)"
| "write_entries cd (e # es) buf =
     (case encode cd (store_line e) of
        None \<Rightarrow> (Some UnicodeEncodeError, buf)
      | Some bs \<Rightarrow> write_entries cd es (buf @ bs))"

definition save :: "codec \<Rightarrow> dict \<Rightarrow> save_fault \<Rightarrow> store_file \<Rightarrow> error option \<times> store_file" where
  \<comment> \<open>\<^verbatim>\<open>ChecksumTracker.save\<close>: the exception raised, if any, and the file left\<close>
  "save cd new fault sf =
     (case fault of
        OpenFails \<Rightarrow> (Some OSError, sf)
      | NoFault \<Rightarrow> (case write_entries cd new [] of (r, buf) \<Rightarrow> (r, Some buf))
      | DiskFails n \<Rightarrow>
          (case write_entries cd new [] of (r, buf) \<Rightarrow>
             if n < length buf then (Some OSError, Some (take n buf)) else (r, Some buf)))"

definition get_checksum :: "(bytes \<Rightarrow> str) \<Rightarrow> error + bytes \<Rightarrow> error + str" where
  \<comment> \<open>\<^verbatim>\<open>ChecksumTracker.get_checksum\<close>: the first argument is
      \<^verbatim>\<open>hashlib.md5(...).hexdigest()\<close>, the second what \<^verbatim>\<open>open(file_path, "rb")\<close> and
      \<^verbatim>\<open>f.read()\<close> give: the bytes, or the exception raised\<close>
  "get_checksum md5_hexdigest content =
     (case content of Inl e \<Rightarrow> Inl e | Inr bs \<Rightarrow> Inr (md5_hexdigest bs))"

definition has_changed :: "tracker \<Rightarrow> str \<Rightarrow> str \<Rightarrow> tracker \<times> bool" where
  \<comment> \<open>\<^verbatim>\<open>ChecksumTracker.has_changed\<close>: the tracker after the call, and the value returned\<close>
  "has_changed t relative_path checksum =
     (let t' = t\<lparr>new_checksums := AList.update relative_path checksum (new_checksums t)\<rparr>;
          old = map_of (old_checksums t') relative_path
      in (t', old = None \<or> old \<noteq> Some checksum))"


section \<open>DatabricksUploader\<close>

text \<open>
  \<^verbatim>\<open>requests.put\<close> raises a \<^verbatim>\<open>requests.RequestException\<close> (no connection,
  timeout, ...), or raises another exception (a \<^verbatim>\<open>UnicodeEncodeError\<close> for a
  header or a URL it cannot encode, ...), or returns a response with a status
  code. Which status codes make \<^verbatim>\<open>response.raise_for_status()\<close> raise its
  \<^verbatim>\<open>HTTPError\<close> (a \<^verbatim>\<open>RequestException\<close> too) is decided by the requests library:
  the predicate is a parameter of \<open>upload_file\<close>. The \<^verbatim>\<open>except\<close> clause names
  \<^verbatim>\<open>requests.RequestException\<close> only, so neither the \<^verbatim>\<open>OSError\<close> of
  \<^verbatim>\<open>open(local_file, "rb")\<close> nor the other exceptions of \<^verbatim>\<open>requests.put\<close> are
  caught.
\<close>

datatype put_outcome = RequestError | Raises error | Response nat

definition upload_file ::
    "(nat \<Rightarrow> bool) \<Rightarrow> error + bytes \<Rightarrow> put_outcome \<Rightarrow> error + bool" where
  \<comment> \<open>\<^verbatim>\<open>DatabricksUploader.upload_file\<close>: what reading the local file gives, what
      the PUT request gives; the value returned, or the exception that escapes\<close>
  "upload_file raises_for_status local_read put =
     (case local_read of
        Inl e \<Rightarrow> Inl e
      | Inr file_content \<Rightarrow>
          (case put of
             RequestError \<Rightarrow> Inr False
           | Raises e \<Rightarrow> Inl e
           | Response status \<Rightarrow> if raises_for_status status then Inr False else Inr True))"

definition requests_raise_for_status :: "nat \<Rightarrow> bool" where
  \<comment> \<open>the requests library raises for the 4xx and 5xx codes\<close>
  "requests_raise_for_status status = (400 \<le> status \<and> status < 600)"


section \<open>The main pipeline\<close>

text \<open>
  One entry of \<^verbatim>\<open>config["local_folder"].rglob("*")\<close>, with what the loop body observes
  of it: \<^verbatim>\<open>file.is_file()\<close>, \<^verbatim>\<open>file.parts\<close>, \<^verbatim>\<open>str(file.relative_to(...))\<close>, the result
  of reading it in \<^verbatim>\<open>get_checksum\<close>, the result of reading it again in
  \<^verbatim>\<open>upload_file\<close>, and the outcome of the PUT request made for it.
\<close>

record file_entry =
  is_file :: bool
  parts :: "str list"
  relative_path :: str
  content :: "error + bytes"
  upload_read :: "error + bytes"
  put_result :: put_outcome

record counts =
  uploaded :: int
  skipped :: int
  failed :: int

definition visited :: "file_entry \<Rightarrow> bool" where
  \<comment> \<open>the negation of the \<^verbatim>\<open>continue\<close> guard: a regular file outside \<^verbatim>\<open>.git\<close>\<close>
  "visited file = (\<not> (\<not> is_file file \<or> str_of ''.git'' \<in> set (parts file)))"

definition sync_file ::
    "(bytes \<Rightarrow> str) \<Rightarrow> (nat \<Rightarrow> bool) \<Rightarrow> file_entry \<Rightarrow> tracker \<times> counts
      \<Rightarrow> error + tracker \<times> counts" where
  \<comment> \<open>the body of the \<^verbatim>\<open>for\<close> loop of \<^verbatim>\<open>main\<close>; nothing in it catches an exception\<close>
  "sync_file md5_hexdigest raises_for_status file st =
     (case st of (t, c) \<Rightarrow>
        if \<not> is_file file \<or> str_of ''.git'' \<in> set (parts file) then Inr (t, c)
        else
          (case get_checksum md5_hexdigest (content file) of
             Inl e \<Rightarrow> Inl e
           | Inr checksum \<Rightarrow>
               (case has_changed t (relative_path file) checksum of (t', changed) \<Rightarrow>
                  if changed then
                    (case upload_file raises_for_status (upload_read file) (put_result file) of
                       Inl e \<Rightarrow> Inl e
                     | Inr ok \<Rightarrow>
                         if ok then Inr (t', c\<lparr>uploaded := uploaded c + 1\<rparr>)
                         else Inr (t', c\<lparr>failed := failed c + 1\<rparr>))
                  else Inr (t', c\<lparr>skipped := skipped c + 1\<rparr>))))"

fun sync_loop ::
    "(bytes \<Rightarrow> str) \<Rightarrow> (nat \<Rightarrow> bool) \<Rightarrow> file_entry list \<Rightarrow> tracker \<times> counts
      \<Rightarrow> error + tracker \<times> counts" where
  \<comment> \<open>the \<^verbatim>\<open>for\<close> loop: an exception ends it\<close>
  "sync_loop md5_hexdigest raises_for_status [] st = Inr st"
| "sync_loop md5_hexdigest raises_for_status (file # files) st =
     (case sync_file md5_hexdigest raises_for_status file st of
        Inl e \<Rightarrow> Inl e
      | Inr st' \<Rightarrow> sync_loop md5_hexdigest raises_for_status files st')"

definition no_counts :: counts where
  \<comment> \<open>\<^verbatim>\<open>uploaded, skipped, failed = 0, 0, 0\<close>\<close>
  "no_counts = \<lparr>uploaded = 0, skipped = 0, failed = 0\<rparr>"

definition detect_and_upload ::
    "codec \<Rightarrow> read_fault \<Rightarrow> (bytes \<Rightarrow> str) \<Rightarrow> (nat \<Rightarrow> bool) \<Rightarrow> store_file
      \<Rightarrow> file_entry list \<Rightarrow> save_fault \<Rightarrow> (error + counts) \<times> store_file" where
  \<comment> \<open>step 2 of \<^verbatim>\<open>main\<close>, from the construction of the tracker to \<^verbatim>\<open>tracker.save()\<close>:
      the counters (or the exception that escapes) and the checksum file left\<close>
  "detect_and_upload cd rf md5_hexdigest raises_for_status sf files fault =
     (case ChecksumTracker cd rf sf of
        Inl e \<Rightarrow> (Inl e, sf)
      | Inr tracker \<Rightarrow>
          (case sync_loop md5_hexdigest raises_for_status files (tracker, no_counts) of
             Inl e \<Rightarrow> (Inl e, sf)
           | Inr (t, c) \<Rightarrow>
               (case save cd (new_checksums t) fault sf of
                  (Some e, sf') \<Rightarrow> (Inl e, sf')
                | (None, sf') \<Rightarrow> (Inr c, sf'))))"

definition required :: "str list" where
  "required = map str_of
     [''GITHUB_REPO'', ''GITHUB_PAT'', ''DATABRICKS_HOST'', ''DATABRICKS_TOKEN'']"

definition falsy :: "str option \<Rightarrow> bool" where
  \<comment> \<open>\<^verbatim>\<open>not os.environ.get(var)\<close>: unset, or set to the empty string\<close>
  "falsy v = (case v of None \<Rightarrow> True | Some s \<Rightarrow> s = [])"

definition get_config :: "(str \<rightharpoonup> str) \<Rightarrow> error + unit" where
  \<comment> \<open>\<^verbatim>\<open>get_config\<close>; the dictionary it returns is not used by the model, which is
      given the working tree and the checksum file themselves\<close>
  "get_config environ =
     (let missing = filter (\<lambda>var. falsy (environ var)) required
      in if missing \<noteq> [] then Inl (EnvironmentError missing) else Inr ())"

definition setup_logging :: "error option \<Rightarrow> error + unit" where
  \<comment> \<open>\<^verbatim>\<open>setup_logging\<close>: the argument is the exception, if any, that creating the
      log directory or opening the log file raises; nothing catches it\<close>
  "setup_logging log_fault = (case log_fault of Some e \<Rightarrow> Inl e | None \<Rightarrow> Inr ())"

datatype git_command = SetUrl | Fetch | Reset | Clone

text \<open>
  A \<^verbatim>\<open>subprocess.run(..., check=True)\<close> completes, or raises
  \<^verbatim>\<open>CalledProcessError\<close> (the command failed), or raises something else (no
  \<^verbatim>\<open>git\<close> to run). The handler of \<^verbatim>\<open>git_sync\<close> catches the first only, and decodes
  the error output of the command for the log: the flag says whether that output
  decodes.
\<close>

datatype run_outcome = Completed | CalledProcessError bool | RunRaises error

fun run_commands :: "(git_command \<Rightarrow> run_outcome) \<Rightarrow> git_command list \<Rightarrow> error + bool" where
  \<comment> \<open>the \<^verbatim>\<open>try\<close> block of \<^verbatim>\<open>git_sync\<close> with its handler\<close>
  "run_commands run [] = Inr True"
| "run_commands run (command # commands) =
     (case run command of
        Completed \<Rightarrow> run_commands run commands
      | CalledProcessError stderr_decodes \<Rightarrow>
          if stderr_decodes then Inr False else Inl UnicodeDecodeError
      | RunRaises e \<Rightarrow> Inl e)"

definition git_sync :: "bool \<Rightarrow> (git_command \<Rightarrow> run_outcome) \<Rightarrow> error + bool" where
  \<comment> \<open>\<^verbatim>\<open>git_sync\<close>: whether the local folder exists, and what each
      \<^verbatim>\<open>subprocess.run\<close> call does\<close>
  "git_sync folder_exists run =
     (if folder_exists then run_commands run [SetUrl, Fetch, Reset]
      else run_commands run [Clone])"

record world =
  locale_codec :: codec
  environ :: "str \<rightharpoonup> str"
  log_fault :: "error option"
  folder_exists :: bool
  git_runs :: "git_command \<Rightarrow> run_outcome"
  store_read :: read_fault
  checksum_file :: store_file
  tree :: "file_entry list"
  fault :: save_fault

datatype ending = Returned | SysExit int | Uncaught error

definition exit_code :: "ending \<Rightarrow> int" where
  \<comment> \<open>the interpreter exits with 0 when \<^verbatim>\<open>main\<close> returns, with the argument of
      \<^verbatim>\<open>sys.exit\<close>, and with 1 after an uncaught exception\<close>
  "exit_code e = (case e of Returned \<Rightarrow> 0 | SysExit n \<Rightarrow> n | Uncaught x \<Rightarrow> 1)"

definition main ::
    "(bytes \<Rightarrow> str) \<Rightarrow> (nat \<Rightarrow> bool) \<Rightarrow> world \<Rightarrow> ending \<times> store_file" where
  \<comment> \<open>\<^verbatim>\<open>main\<close>: how the process ends, and the checksum file it leaves; the log
      lines are left out\<close>
  "main md5_hexdigest raises_for_status w =
     (case get_config (environ w) of
        Inl e \<Rightarrow> (SysExit 1, checksum_file w)
      | Inr config \<Rightarrow>
          (case setup_logging (log_fault w) of
             Inl e \<Rightarrow> (Uncaught e, checksum_file w)
           | Inr log_file \<Rightarrow>
               (case git_sync (folder_exists w) (git_runs w) of
                  Inl e \<Rightarrow> (Uncaught e, checksum_file w)
                | Inr synced \<Rightarrow>
                    if \<not> synced then (SysExit 1, checksum_file w)
                    else
                      (case detect_and_upload (locale_codec w) (store_read w) md5_hexdigest
                              raises_for_status (checksum_file w) (tree w) (fault w) of
                         (Inl e, sf) \<Rightarrow> (Uncaught e, sf)
                       | (Inr c, sf) \<Rightarrow>
                           (if failed c > 0 then SysExit 1 else Returned, sf)))))"


section \<open>Entries that the store format can hold\<close>

text \<open>
  The checksum file has one \<^verbatim>\<open>path=checksum\<close> line per entry and no escaping. A
  newline is a character that ends a line for the text-mode reader: \<^verbatim>\<open>\n\<close> or
  \<^verbatim>\<open>\r\<close>.
\<close>

definition no_newline :: "str \<Rightarrow> bool" where
  "no_newline s = (LF \<notin> set s \<and> CR \<notin> set s)"

definition no_outer_space :: "str \<Rightarrow> bool" where
  \<comment> \<open>no leading and no trailing whitespace\<close>
  "no_outer_space s = (s = [] \<or> (\<not> py_isspace (hd s) \<and> \<not> py_isspace (last s)))"

definition clean_path :: "str \<Rightarrow> bool" where
  "clean_path p = (p \<noteq> [] \<and> EQ \<notin> set p \<and> no_newline p \<and> no_outer_space p)"

definition clean_checksum :: "str \<Rightarrow> bool" where
  "clean_checksum c = (no_newline c \<and> no_outer_space c)"

definition clean_dict :: "dict \<Rightarrow> bool" where
  "clean_dict d = list_all (\<lambda>e. clean_path (fst e) \<and> clean_checksum (snd e)) d"




section \<open>Concrete inputs\<close>

definition d41d :: str where
  \<comment> \<open>the MD5 digest of the empty content\<close>
  "d41d = str_of ''d41d8cd98f00b204e9800998ecf8427e''"

definition md5_of_empty :: "bytes \<Rightarrow> str" where
  \<comment> \<open>a digest for the concrete inputs: it is \<^verbatim>\<open>hashlib.md5(b).hexdigest()\<close> on the
      empty content, the only content they read\<close>
  "md5_of_empty bs = d41d"

fun slash_join :: "string list \<Rightarrow> string" where
  "slash_join [] = []"
| "slash_join [x] = x"
| "slash_join (x # y # r) = x @ ''/'' @ slash_join (y # r)"

definition regular :: "string list \<Rightarrow> error + bytes \<Rightarrow> put_outcome \<Rightarrow> file_entry" where
  \<comment> \<open>a regular file under the local folder \<^verbatim>\<open>repo\<close>, given by the names below the
      folder, read twice with the same result\<close>
  "regular names read put =
     \<lparr>is_file = True, parts = map str_of (''repo'' # names),
      relative_path = str_of (slash_join names),
      content = read, upload_read = read, put_result = put\<rparr>"

definition example_tree :: "file_entry list" where
  \<comment> \<open>an unchanged file, a directory, a file of the \<^verbatim>\<open>.git\<close> folder, two files
      whose upload fails, and a file that is uploaded\<close>
  "example_tree =
     [regular [''a.txt''] (Inr []) (Response 200),
      \<lparr>is_file = False, parts = map str_of [''repo'', ''sql''], relative_path = str_of ''sql'',
       content = Inl OSError, upload_read = Inl OSError, put_result = RequestError\<rparr>,
      regular [''.git'', ''HEAD''] (Inr []) RequestError,
      regular [''sql'', ''b.sql''] (Inr []) (Response 500),
      regular [''c.txt''] (Inr []) RequestError,
      regular [''d.txt''] (Inr []) (Response 200)]"

definition example_old :: dict where
  "example_old =
     [(str_of ''a.txt'', d41d), (str_of ''gone.sql'', str_of ''0cc175b9c0f1b6a831c399e269772661'')]"

definition example_new :: dict where
  \<comment> \<open>\<^verbatim>\<open>new_checksums\<close> after the walk of \<open>example_tree\<close>\<close>
  "example_new =
     [(str_of ''a.txt'', d41d), (str_of ''sql/b.sql'', d41d), (str_of ''c.txt'', d41d),
      (str_of ''d.txt'', d41d)]"

definition example_store :: store_file where
  \<comment> \<open>the file that holds \<open>example_old\<close>; its text is ASCII, so its bytes are its
      code points\<close>
  "example_store = Some (concat (map store_line example_old))"

definition example_saved :: store_file where
  "example_saved = Some (concat (map store_line example_new))"



section \<open>The UTF-8 codec decodes what it encodes\<close>

lemma div_4096: "c div 4096 = c div 64 div (64::nat)"
  by (simp add: div_mult2_eq [symmetric])

lemma div_262144: "c div 262144 = c div 4096 div (64::nat)"
  by (simp add: div_mult2_eq [symmetric])

lemma recompose2: "c div 64 * 64 + c mod 64 = (c::nat)"
  by simp

lemma recompose3: "c div 4096 * 4096 + c div 64 mod 64 * 64 + c mod 64 = (c::nat)"
proof -
  have "c div 64 = c div 4096 * 64 + c div 64 mod 64"
    by (simp add: div_4096)
  then have "c div 64 * 64 = c div 4096 * 4096 + c div 64 mod 64 * 64"
    by simp
  then show ?thesis
    using recompose2 [of c] by simp
qed

lemma recompose4:
  "c div 262144 * 262144 + c div 4096 mod 64 * 4096 + c div 64 mod 64 * 64 + c mod 64 = (c::nat)"
proof -
  have "c div 4096 = c div 262144 * 64 + c div 4096 mod 64"
    by (simp add: div_262144)
  then have "c div 4096 * 4096 = c div 262144 * 262144 + c div 4096 mod 64 * 4096"
    by simp
  then show ?thesis
    using recompose3 [of c] by simp
qed

lemma decode1: "c < 0x80 \<Longrightarrow> utf8_decode ([c] @ rest) = map_option (Cons c) (utf8_decode rest)"
  by simp

lemma decode2:
  assumes "0x80 \<le> c" "c < 0x800"
  shows "utf8_decode ([0xC0 + c div 64, 0x80 + c mod 64] @ rest)
    = map_option (Cons c) (utf8_decode rest)"
proof -
  have "2 \<le> c div 64" "c div 64 < 32"
    using assms by simp_all
  then show ?thesis
    by (simp add: continuation_def recompose2)
qed

lemma decode3:
  assumes "0x800 \<le> c" "c < 0x10000" "\<not> surrogate c"
  shows "utf8_decode ([0xE0 + c div 4096, 0x80 + c div 64 mod 64, 0x80 + c mod 64] @ rest)
    = map_option (Cons c) (utf8_decode rest)"
proof -
  have "c div 4096 < 16"
    using assms by simp
  then show ?thesis
    using assms by (simp add: continuation_def recompose3 Let_def)
qed

lemma decode4:
  assumes "0x10000 \<le> c" "c < 0x110000"
  shows "utf8_decode ([0xF0 + c div 262144, 0x80 + c div 4096 mod 64, 0x80 + c div 64 mod 64,
              0x80 + c mod 64] @ rest)
    = map_option (Cons c) (utf8_decode rest)"
proof -
  have "c div 262144 < 5"
    using assms by simp
  then show ?thesis
    using assms by (simp add: continuation_def recompose4 Let_def)
qed

lemma utf8_decode_char:
  assumes "utf8_encode_char c = Some bs"
  shows "utf8_decode (bs @ rest) = map_option (Cons c) (utf8_decode rest)"
proof -
  consider (one) "c < 0x80" "bs = [c]"
    | (two) "0x80 \<le> c" "c < 0x800" "bs = [0xC0 + c div 64, 0x80 + c mod 64]"
    | (three) "0x800 \<le> c" "c < 0x10000" "\<not> surrogate c"
        "bs = [0xE0 + c div 4096, 0x80 + c div 64 mod 64, 0x80 + c mod 64]"
    | (four) "0x10000 \<le> c" "c < 0x110000"
        "bs = [0xF0 + c div 262144, 0x80 + c div 4096 mod 64, 0x80 + c div 64 mod 64,
              0x80 + c mod 64]"
    using assms unfolding utf8_encode_char_def by (auto split: if_splits)
  then show ?thesis
  proof cases
    case one
    then show ?thesis using decode1 [of c rest] by simp
  next
    case two
    then show ?thesis using decode2 [of c rest] by simp
  next
    case three
    then show ?thesis using decode3 [of c rest] by simp
  next
    case four
    then show ?thesis using decode4 [of c rest] by simp
  qed
qed

lemma encode_Nil: "encode cd [] = Some []"
  by (simp add: encode_def)

lemma encode_Cons:
  "encode cd (c # s) =
     (case encode_char cd c of
        None \<Rightarrow> None
      | Some b \<Rightarrow> (case encode cd s of None \<Rightarrow> None | Some r \<Rightarrow> Some (b @ r)))"
  by (simp add: encode_def split: option.splits)

lemma encode_append:
  "encode cd (s @ u) =
     (case encode cd s of
        None \<Rightarrow> None
      | Some a \<Rightarrow> (case encode cd u of None \<Rightarrow> None | Some b \<Rightarrow> Some (a @ b)))"
  by (induction s) (auto simp: encode_Nil encode_Cons split: option.splits)


lemma lossless_utf8: "lossless utf8"
proof -
  have "utf8_decode bs = Some s" if "encode utf8 s = Some bs" for s bs
    using that
  proof (induction s arbitrary: bs)
    case Nil
    then show ?case by (simp add: encode_Nil)
  next
    case (Cons c s)
    from Cons.prems obtain b r where b: "utf8_encode_char c = Some b"
      and r: "encode utf8 s = Some r" and bs: "bs = b @ r"
      by (auto simp: encode_Cons utf8_def split: option.splits)
    show ?case
      by (simp add: bs utf8_decode_char [OF b] Cons.IH [OF r])
  qed
  then show ?thesis
    by (simp add: lossless_def utf8_def)
qed

lemma encode_utf8_ascii: "\<forall>c \<in> set s. c < 0x80 \<Longrightarrow> encode utf8 s = Some s"
  by (induction s) (auto simp: encode_Nil encode_Cons utf8_def utf8_encode_char_def)

lemma decode_utf8_ascii: "\<forall>c \<in> set s. c < 0x80 \<Longrightarrow> decode utf8 s = Some s"
  using lossless_utf8 encode_utf8_ascii [of s] by (simp add: lossless_def)


section \<open>Reading back what \<open>save\<close> wrote\<close>

lemma universal_newlines_id: "CR \<notin> set s \<Longrightarrow> universal_newlines s = s"
  by (induction s rule: universal_newlines.induct) auto

lemma lines_from_line:
  "LF \<notin> set ln \<Longrightarrow> lines_from acc (ln @ LF # rest) = (acc @ ln @ [LF]) # lines_from [] rest"
  by (induction ln arbitrary: acc) auto

lemma lines_from_store:
  "\<forall>e \<in> set es. LF \<notin> set (fst e) \<and> LF \<notin> set (snd e) \<Longrightarrow>
   lines_from [] (concat (map store_line es)) = map store_line es"
proof (induction es)
  case Nil
  then show ?case by simp
next
  case (Cons e es)
  have nl: "LF \<notin> set (fst e @ [EQ] @ snd e)"
    using Cons.prems by (simp add: LF_def EQ_def)
  have hd: "concat (map store_line (e # es))
      = (fst e @ [EQ] @ snd e) @ LF # concat (map store_line es)"
    by (simp add: store_line_def)
  have ih: "lines_from [] (concat (map store_line es)) = map store_line es"
    using Cons by simp
  have "store_line e = [] @ (fst e @ [EQ] @ snd e) @ [LF]"
    by (simp add: store_line_def)
  then show ?case
    using lines_from_line [OF nl, of "[]" "concat (map store_line es)"] hd ih
    by (simp only: list.map)
qed

lemma py_isspace_LF: "py_isspace LF"
  by (simp add: py_isspace_def LF_def)

lemma not_py_isspace_EQ: "\<not> py_isspace EQ"
  by (simp add: py_isspace_def EQ_def)

lemma strip_store_line:
  assumes "p = [] \<or> \<not> py_isspace (hd p)" and "c = [] \<or> \<not> py_isspace (last c)"
  shows "strip (store_line (p, c)) = p @ [EQ] @ c"
proof -
  have a: "dropWhile py_isspace (p @ [EQ] @ c @ [LF]) = p @ [EQ] @ c @ [LF]"
    using assms(1) by (cases p) (auto simp: not_py_isspace_EQ)
  have b: "dropWhile py_isspace (rev c @ [EQ] @ rev p) = rev c @ [EQ] @ rev p"
    using assms(2) by (cases c rule: rev_cases) (auto simp: not_py_isspace_EQ)
  show ?thesis
    using a b by (simp add: strip_def store_line_def py_isspace_LF)
qed

lemma split_eq1_line: "EQ \<notin> set p \<Longrightarrow> split_eq1 (p @ EQ # c) = (p, c)"
  by (simp add: split_eq1_def takeWhile_append dropWhile_append)

lemma load_line_store_line:
  assumes "EQ \<notin> set p" and "p = [] \<or> \<not> py_isspace (hd p)"
    and "c = [] \<or> \<not> py_isspace (last c)"
  shows "load_line old (store_line (p, c)) = AList.update p c old"
proof -
  have "EQ \<in> set (store_line (p, c))"
    by (simp add: store_line_def)
  moreover have "split_eq1 (strip (store_line (p, c))) = (p, c)"
    using assms by (simp add: strip_store_line split_eq1_line)
  ultimately show ?thesis
    by (simp add: load_line_def)
qed

lemma update_fresh: "k \<notin> fst ` set al \<Longrightarrow> AList.update k v al = al @ [(k, v)]"
  by (induction al) auto

lemma foldl_load_store:
  assumes "clean_dict es" and "distinct (map fst (acc @ es))"
  shows "foldl load_line acc (map store_line es) = acc @ es"
  using assms
proof (induction es arbitrary: acc)
  case Nil
  then show ?case by simp
next
  case (Cons e es)
  obtain p c where e: "e = (p, c)" by (cases e)
  have cl: "clean_path p" "clean_checksum c" "clean_dict es"
    using Cons.prems(1) by (simp_all add: clean_dict_def e)
  have "load_line acc (store_line (p, c)) = AList.update p c acc"
    using cl by (intro load_line_store_line) (auto simp: clean_path_def clean_checksum_def no_outer_space_def)
  moreover have "p \<notin> fst ` set acc"
    using Cons.prems(2) by (auto simp: e)
  ultimately have step: "load_line acc (store_line e) = acc @ [e]"
    by (simp add: update_fresh e)
  have "distinct (map fst ((acc @ [e]) @ es))"
    using Cons.prems(2) by simp
  then have "foldl load_line (acc @ [e]) (map store_line es) = (acc @ [e]) @ es"
    using cl(3) by (rule Cons.IH [rotated])
  then show ?case
    using step by simp
qed

lemma clean_dict_no_newline:
  "clean_dict es \<Longrightarrow> e \<in> set es \<Longrightarrow> no_newline (fst e) \<and> no_newline (snd e)"
  by (auto simp: clean_dict_def list_all_iff clean_path_def clean_checksum_def)

lemma CR_notin_store:
  assumes "clean_dict es"
  shows "CR \<notin> set (concat (map store_line es))"
  using clean_dict_no_newline [OF assms]
  by (auto simp: store_line_def no_newline_def CR_def LF_def EQ_def)

lemma file_lines_store:
  assumes "clean_dict es"
  shows "file_lines (concat (map store_line es)) = map store_line es"
proof -
  have "\<forall>e \<in> set es. LF \<notin> set (fst e) \<and> LF \<notin> set (snd e)"
    using clean_dict_no_newline [OF assms] by (simp add: no_newline_def)
  then show ?thesis
    by (simp add: file_lines_def universal_newlines_id [OF CR_notin_store [OF assms]] lines_from_store)
qed

lemma load_text:
  assumes "decode cd bs = Some (concat (map store_line es))"
    and "clean_dict es" and "distinct (map fst es)"
  shows "load cd Readable (Some bs) = Inr es"
  using foldl_load_store [of es "[]"] assms by (simp add: load_def file_lines_store)

lemma load_saved:
  assumes "lossless cd" and "encode cd (concat (map store_line es)) = Some bs"
    and "clean_dict es" and "distinct (map fst es)"
  shows "load cd Readable (Some bs) = Inr es"
  using assms(1,2) by (intro load_text assms(3,4)) (simp add: lossless_def)

lemma write_entries_buffer:
  "write_entries cd es buf = (r, out) \<Longrightarrow>
   \<exists>k bs. k \<le> length es \<and> encode cd (concat (map store_line (take k es))) = Some bs
     \<and> out = buf @ bs
     \<and> (r = None \<longrightarrow> k = length es)
     \<and> (r \<noteq> None \<longrightarrow> r = Some UnicodeEncodeError \<and> k < length es
           \<and> encode cd (store_line (es ! k)) = None)"
proof (induction es arbitrary: buf)
  case Nil
  then show ?case by (auto simp: encode_Nil)
next
  case (Cons e es)
  show ?case
  proof (cases "encode cd (store_line e)")
    case None
    then have "r = Some UnicodeEncodeError" "out = buf"
      using Cons.prems by simp_all
    then show ?thesis
      using None by (intro exI [of _ 0] exI [of _ "[]"]) (simp add: encode_Nil)
  next
    case (Some b)
    then have "write_entries cd es (buf @ b) = (r, out)"
      using Cons.prems by simp
    from Cons.IH [OF this] obtain k bs where k: "k \<le> length es"
      and enc: "encode cd (concat (map store_line (take k es))) = Some bs"
      and out: "out = (buf @ b) @ bs"
      and ok: "r = None \<longrightarrow> k = length es"
      and bad: "r \<noteq> None \<longrightarrow> r = Some UnicodeEncodeError \<and> k < length es
           \<and> encode cd (store_line (es ! k)) = None"
      by blast
    show ?thesis
      using k enc out ok bad Some
      by (intro exI [of _ "Suc k"] exI [of _ "b @ bs"]) (auto simp: encode_append)
  qed
qed

lemma write_entries_all:
  "encode cd (concat (map store_line es)) = Some bs \<Longrightarrow> write_entries cd es buf = (None, buf @ bs)"
proof (induction es arbitrary: buf bs)
  case Nil
  then show ?case by (simp add: encode_Nil)
next
  case (Cons e es)
  from Cons.prems obtain b r where b: "encode cd (store_line e) = Some b"
    and r: "encode cd (concat (map store_line es)) = Some r" and bs: "bs = b @ r"
    by (auto simp: encode_append split: option.splits)
  show ?case
    by (simp add: b bs Cons.IH [OF r])
qed

lemma save_completes:
  assumes "save cd new flt sf = (None, sf')"
  shows "\<exists>bs. sf' = Some bs \<and> encode cd (concat (map store_line new)) = Some bs"
proof -
  obtain r out where w: "write_entries cd new [] = (r, out)"
    by (cases "write_entries cd new []")
  from write_entries_buffer [OF w] obtain k bs where
    enc: "encode cd (concat (map store_line (take k new))) = Some bs" and out: "out = bs"
    and ok: "r = None \<longrightarrow> k = length new"
    by auto
  have "r = None \<and> sf' = Some out"
    using assms w by (cases flt) (auto simp: save_def split: if_splits)
  then show ?thesis
    using enc out ok by simp
qed

lemma save_NoFault:
  "encode cd (concat (map store_line new)) = Some bs \<Longrightarrow> save cd new NoFault sf = (None, Some bs)"
  using write_entries_all [of cd new bs "[]"] by (simp add: save_def)


section \<open>The walk\<close>

lemma sync_file_skip: "\<not> visited f \<Longrightarrow> sync_file md5 rfs f st = Inr st"
  by (cases st) (auto simp: sync_file_def visited_def)

lemma sync_file_read_error:
  "visited f \<Longrightarrow> content f = Inl e \<Longrightarrow> sync_file md5 rfs f st = Inl e"
  by (cases st) (auto simp: sync_file_def visited_def get_checksum_def)

lemma sync_file_visited:
  assumes "visited f" and "content f = Inr b"
  shows "sync_file md5 rfs f (t, c) =
    (let t' = t\<lparr>new_checksums := AList.update (relative_path f) (md5 b) (new_checksums t)\<rparr>
     in if map_of (old_checksums t) (relative_path f) = Some (md5 b)
        then Inr (t', c\<lparr>skipped := skipped c + 1\<rparr>)
        else (case upload_file rfs (upload_read f) (put_result f) of
                Inl e \<Rightarrow> Inl e
              | Inr ok \<Rightarrow> if ok then Inr (t', c\<lparr>uploaded := uploaded c + 1\<rparr>)
                           else Inr (t', c\<lparr>failed := failed c + 1\<rparr>)))"
  using assms
  by (auto simp: sync_file_def visited_def get_checksum_def has_changed_def Let_def split: sum.splits)

lemma sync_file_InrE:
  assumes "sync_file md5 rfs f (t, c) = Inr (t', c')" and "visited f"
  obtains b where "content f = Inr b"
    and "t' = t\<lparr>new_checksums := AList.update (relative_path f) (md5 b) (new_checksums t)\<rparr>"
    and "uploaded c' + skipped c' + failed c' = uploaded c + skipped c + failed c + 1"
    and "uploaded c \<le> uploaded c'" and "skipped c \<le> skipped c'" and "failed c \<le> failed c'"
proof (cases "content f")
  case (Inl e)
  then show ?thesis using assms sync_file_read_error [of f e] by simp
next
  case (Inr b)
  show ?thesis
    using assms(1) unfolding sync_file_visited [OF assms(2) Inr]
    by (intro that [of b]) (auto simp: Inr Let_def split: if_splits sum.splits)
qed

lemma sync_loop_append:
  "sync_loop md5 rfs (xs @ ys) st =
     (case sync_loop md5 rfs xs st of Inl e \<Rightarrow> Inl e | Inr st' \<Rightarrow> sync_loop md5 rfs ys st')"
  by (induction xs arbitrary: st) (auto split: sum.splits)


lemma sync_loop_ConsE:
  assumes "sync_loop md5 rfs (f # files) (t, c) = Inr (t', c')"
  obtains t1 c1 where "sync_file md5 rfs f (t, c) = Inr (t1, c1)"
    and "sync_loop md5 rfs files (t1, c1) = Inr (t', c')"
  using assms by (auto split: sum.splits)

lemma sync_file_tracker:
  assumes "sync_file md5 rfs f (t, c) = Inr (t1, c1)"
  shows "old_checksums t1 = old_checksums t"
    and "fst ` set (new_checksums t1)
           = fst ` set (new_checksums t) \<union> relative_path ` {g \<in> {f}. visited g}"
    and "distinct (map fst (new_checksums t)) \<Longrightarrow> distinct (map fst (new_checksums t1))"
    and "set (new_checksums t1) \<subseteq> set (new_checksums t)
           \<union> {(relative_path g, md5 b) | g b. g \<in> {f} \<and> visited g \<and> content g = Inr b}"
proof -
  have sub: "set (AList.update k v al) \<subseteq> insert (k, v) (set al)" for k v and al :: dict
    by (induction al) auto
  consider (skip) "\<not> visited f" "t1 = t"
    | (visit) b where "visited f" "content f = Inr b"
        "t1 = t\<lparr>new_checksums := AList.update (relative_path f) (md5 b) (new_checksums t)\<rparr>"
  proof (cases "visited f")
    case True
    from assms True obtain b where "content f = Inr b"
      "t1 = t\<lparr>new_checksums := AList.update (relative_path f) (md5 b) (new_checksums t)\<rparr>"
      by (rule sync_file_InrE)
    with True show ?thesis by (rule visit)
  next
    case False
    with assms show ?thesis by (intro skip) (simp_all add: sync_file_skip)
  qed
  note cases = this
  show "old_checksums t1 = old_checksums t"
    by (cases rule: cases) simp_all
  show "fst ` set (new_checksums t1)
           = fst ` set (new_checksums t) \<union> relative_path ` {g \<in> {f}. visited g}"
    by (cases rule: cases) (auto simp: dom_update)
  show "distinct (map fst (new_checksums t1))" if "distinct (map fst (new_checksums t))"
    using that by (cases rule: cases) (simp_all add: distinct_update)
  show "set (new_checksums t1) \<subseteq> set (new_checksums t)
           \<union> {(relative_path g, md5 b) | g b. g \<in> {f} \<and> visited g \<and> content g = Inr b}"
  proof (cases rule: cases)
    case skip
    then show ?thesis by auto
  next
    case (visit b)
    then show ?thesis using sub [of "relative_path f" "md5 b" "new_checksums t"] by auto
  qed
qed

lemma sync_loop_old:
  "sync_loop md5 rfs files (t, c) = Inr (t', c') \<Longrightarrow> old_checksums t' = old_checksums t"
proof (induction files arbitrary: t c)
  case Nil
  then show ?case by simp
next
  case (Cons f files)
  from Cons.prems show ?case
    by (elim sync_loop_ConsE) (simp add: Cons.IH sync_file_tracker(1))
qed

lemma sync_loop_keys:
  "sync_loop md5 rfs files (t, c) = Inr (t', c') \<Longrightarrow>
   fst ` set (new_checksums t')
     = fst ` set (new_checksums t) \<union> relative_path ` {f \<in> set files. visited f}"
proof (induction files arbitrary: t c)
  case Nil
  then show ?case by simp
next
  case (Cons f files)
  from Cons.prems obtain t1 c1 where step: "sync_file md5 rfs f (t, c) = Inr (t1, c1)"
    and rest: "sync_loop md5 rfs files (t1, c1) = Inr (t', c')"
    by (rule sync_loop_ConsE)
  show ?case
    unfolding Cons.IH [OF rest] sync_file_tracker(2) [OF step] by auto
qed

lemma sync_loop_distinct:
  "sync_loop md5 rfs files (t, c) = Inr (t', c') \<Longrightarrow> distinct (map fst (new_checksums t)) \<Longrightarrow>
   distinct (map fst (new_checksums t'))"
proof (induction files arbitrary: t c)
  case Nil
  then show ?case by simp
next
  case (Cons f files)
  from Cons.prems(1) obtain t1 c1 where step: "sync_file md5 rfs f (t, c) = Inr (t1, c1)"
    and rest: "sync_loop md5 rfs files (t1, c1) = Inr (t', c')"
    by (rule sync_loop_ConsE)
  show ?case
    using Cons.IH [OF rest] sync_file_tracker(3) [OF step] Cons.prems(2) by simp
qed

lemma sync_loop_entries:
  "sync_loop md5 rfs files (t, c) = Inr (t', c') \<Longrightarrow>
   set (new_checksums t') \<subseteq> set (new_checksums t)
     \<union> {(relative_path f, md5 b) | f b. f \<in> set files \<and> visited f \<and> content f = Inr b}"
proof (induction files arbitrary: t c)
  case Nil
  then show ?case by simp
next
  case (Cons f files)
  from Cons.prems(1) obtain t1 c1 where step: "sync_file md5 rfs f (t, c) = Inr (t1, c1)"
    and rest: "sync_loop md5 rfs files (t1, c1) = Inr (t', c')"
    by (rule sync_loop_ConsE)
  show ?case
    using Cons.IH [OF rest] sync_file_tracker(4) [OF step] by (simp add: subset_iff) blast
qed










section \<open>A run, and the concrete inputs evaluated\<close>

lemma detect_and_upload_InrE:
  assumes "detect_and_upload cd rf md5 rfs sf files flt = (Inr c, sf')"
  obtains old t bs where "load cd rf sf = Inr old"
    and "sync_loop md5 rfs files (\<lparr>old_checksums = old, new_checksums = []\<rparr>, no_counts) = Inr (t, c)"
    and "encode cd (concat (map store_line (new_checksums t))) = Some bs"
    and "sf' = Some bs"
proof -
  from assms obtain old where old: "load cd rf sf = Inr old"
    by (auto simp: detect_and_upload_def ChecksumTracker_def split: sum.splits)
  from assms old obtain t where
    loop: "sync_loop md5 rfs files (\<lparr>old_checksums = old, new_checksums = []\<rparr>, no_counts) = Inr (t, c)"
    and sv: "save cd (new_checksums t) flt sf = (None, sf')"
    by (auto simp: detect_and_upload_def ChecksumTracker_def split: sum.splits prod.splits
        option.splits)
  from save_completes [OF sv] obtain bs where "sf' = Some bs"
    "encode cd (concat (map store_line (new_checksums t))) = Some bs"
    by blast
  with old loop show ?thesis
    by (intro that)
qed

lemma walk_pending:
  assumes loop: "sync_loop md5 rfs files (\<lparr>old_checksums = old, new_checksums = []\<rparr>, c0) = Inr (t, c)"
  shows "old_checksums t = old"
    and "distinct (map fst (new_checksums t))"
    and "fst ` set (new_checksums t) = relative_path ` {f \<in> set files. visited f}"
    and "(\<forall>f \<in> set files. visited f \<longrightarrow> clean_path (relative_path f))
          \<Longrightarrow> (\<forall>b. clean_checksum (md5 b)) \<Longrightarrow> clean_dict (new_checksums t)"
proof -
  show "old_checksums t = old"
    using sync_loop_old [OF loop] by simp
  show "distinct (map fst (new_checksums t))"
    using sync_loop_distinct [OF loop] by simp
  show "fst ` set (new_checksums t) = relative_path ` {f \<in> set files. visited f}"
    using sync_loop_keys [OF loop] by simp
  show "clean_dict (new_checksums t)"
    if "\<forall>f \<in> set files. visited f \<longrightarrow> clean_path (relative_path f)" "\<forall>b. clean_checksum (md5 b)"
    using sync_loop_entries [OF loop] that
    by (auto simp: clean_dict_def list_all_iff)
qed

lemmas text_defs = str_of_def LF_def CR_def EQ_def store_line_def

lemmas run_defs =
  sync_file_def regular_def get_checksum_def has_changed_def upload_file_def
  requests_raise_for_status_def md5_of_empty_def no_counts_def

lemma ascii_d41d: "\<forall>c \<in> set d41d. c < 0x80"
  by (simp add: d41d_def str_of_def)

lemma clean_d41d: "clean_checksum d41d"
  by (simp add: d41d_def clean_checksum_def no_newline_def no_outer_space_def py_isspace_def
      text_defs)

lemma clean_md5_of_empty: "\<forall>b. clean_checksum (md5_of_empty b)"
  by (simp add: md5_of_empty_def clean_d41d)

lemma example_old_clean: "clean_dict example_old \<and> distinct (map fst example_old)"
  by (simp add: example_old_def clean_dict_def clean_path_def clean_d41d)
    (simp add: clean_checksum_def no_newline_def no_outer_space_def py_isspace_def text_defs)

lemma example_store_ascii: "encode utf8 (concat (map store_line example_old)) = Some (concat (map store_line example_old))"
  using ascii_d41d by (intro encode_utf8_ascii) (auto simp: example_old_def text_defs)

lemma example_load: "load utf8 Readable example_store = Inr example_old"
  unfolding example_store_def
  using lossless_utf8 example_store_ascii example_old_clean by (intro load_saved) simp_all

lemma example_walk:
  "sync_loop md5_of_empty requests_raise_for_status example_tree
      (\<lparr>old_checksums = example_old, new_checksums = []\<rparr>, no_counts)
    = Inr (\<lparr>old_checksums = example_old, new_checksums = example_new\<rparr>,
           \<lparr>uploaded = 1, skipped = 1, failed = 2\<rparr>)"
  by (simp add: example_tree_def example_old_def example_new_def run_defs str_of_def)

lemma example_saved_ascii:
  "encode utf8 (concat (map store_line example_new)) = Some (concat (map store_line example_new))"
  using ascii_d41d by (intro encode_utf8_ascii) (auto simp: example_new_def text_defs)

lemma example_save: "save utf8 example_new NoFault sf = (None, example_saved)"
  using example_saved_ascii by (simp add: save_NoFault example_saved_def)


lemma example_tracker:
  "ChecksumTracker utf8 Readable example_store = Inr \<lparr>old_checksums = example_old, new_checksums = []\<rparr>"
  by (simp add: ChecksumTracker_def example_load)


lemma example_run:
  "detect_and_upload utf8 Readable md5_of_empty requests_raise_for_status example_store example_tree NoFault
     = (Inr \<lparr>uploaded = 1, skipped = 1, failed = 2\<rparr>, example_saved)"
  by (simp add: detect_and_upload_def example_tracker example_walk example_save)

lemma example_tree_clean: "\<forall>f \<in> set example_tree. visited f \<longrightarrow> clean_path (relative_path f)"
  by (simp add: example_tree_def regular_def visited_def clean_path_def no_newline_def
      no_outer_space_def py_isspace_def text_defs)


lemma equals_path_first_run:
  "detect_and_upload utf8 Readable md5_of_empty requests_raise_for_status sf
       [regular [''x=y''] (Inr []) (Response 200)] NoFault
     = (Inr \<lparr>uploaded = 1, skipped = 0, failed = 0\<rparr>, Some (store_line (str_of ''x=y'', d41d)))"
  if "load utf8 Readable sf = Inr old" "map_of old (str_of ''x=y'') = None" for sf old
proof -
  have w: "sync_loop md5_of_empty requests_raise_for_status [regular [''x=y''] (Inr []) (Response 200)]
      (\<lparr>old_checksums = old, new_checksums = []\<rparr>, no_counts)
    = Inr (\<lparr>old_checksums = old, new_checksums = [(str_of ''x=y'', d41d)]\<rparr>,
           \<lparr>uploaded = 1, skipped = 0, failed = 0\<rparr>)"
    using that(2) by (simp add: run_defs) (simp add: str_of_def)
  have "encode utf8 (concat (map store_line [(str_of ''x=y'', d41d)]))
      = Some (concat (map store_line [(str_of ''x=y'', d41d)]))"
    using ascii_d41d by (intro encode_utf8_ascii) (auto simp: text_defs)
  then have s: "save utf8 [(str_of ''x=y'', d41d)] NoFault sf = (None, Some (store_line (str_of ''x=y'', d41d)))"
    using save_NoFault [of utf8 "[(str_of ''x=y'', d41d)]"] by simp
  show ?thesis
    by (simp add: detect_and_upload_def ChecksumTracker_def that(1) w s del: sync_loop.simps)
qed

lemma equals_path_read_back:
  "load utf8 Readable (Some (store_line (str_of ''x=y'', d41d))) = Inr [(str_of ''x'', str_of ''y='' @ d41d)]"
proof -
  have "decode utf8 (store_line (str_of ''x=y'', d41d)) = Some (store_line (str_of ''x=y'', d41d))"
    using ascii_d41d by (intro decode_utf8_ascii) (auto simp: text_defs)
  then show ?thesis
    by (simp add: load_def)
      (simp add: file_lines_def load_line_def strip_def split_eq1_def py_isspace_def text_defs d41d_def)
qed







section \<open>Claims\<close>

text \<open>
  C1. \<^verbatim>\<open>has_changed\<close> stores the pair in \<^verbatim>\<open>new_checksums\<close>, overwriting an entry the
  path already had there, leaves \<^verbatim>\<open>old_checksums\<close> alone, and returns true exactly
  when the path is absent from \<^verbatim>\<open>old_checksums\<close> or stored there with another
  checksum; so a path absent from \<^verbatim>\<open>old_checksums\<close> always gives true.
\<close>

theorem has_changed_records:
  "map_of (new_checksums (fst (has_changed t p c))) = (map_of (new_checksums t))(p \<mapsto> c)
   \<and> old_checksums (fst (has_changed t p c)) = old_checksums t
   \<and> snd (has_changed t p c)
       = (map_of (old_checksums t) p = None \<or> map_of (old_checksums t) p \<noteq> Some c)
   \<and> (map_of (old_checksums t) p = None \<longrightarrow> snd (has_changed t p c))"
  by (simp add: has_changed_def Let_def update_conv')

theorem has_changed_records_witness:
  "map_of (new_checksums (fst (has_changed
      \<lparr>old_checksums = example_old, new_checksums = [(str_of ''b.txt'', str_of ''00'')]\<rparr>
      (str_of ''b.txt'') d41d))) (str_of ''b.txt'') = Some d41d
   \<and> snd (has_changed
      \<lparr>old_checksums = example_old, new_checksums = [(str_of ''b.txt'', str_of ''00'')]\<rparr>
      (str_of ''b.txt'') d41d)
   \<and> \<not> snd (has_changed
      \<lparr>old_checksums = example_old, new_checksums = []\<rparr> (str_of ''a.txt'') d41d)"
  using has_changed_records [of
      "\<lparr>old_checksums = example_old, new_checksums = [(str_of ''b.txt'', str_of ''00'')]\<rparr>"
      "str_of ''b.txt''" d41d]
    has_changed_records [of
      "\<lparr>old_checksums = example_old, new_checksums = []\<rparr>" "str_of ''a.txt''" d41d]
  by (simp add: example_old_def str_of_def)




text \<open>
  C3 does not hold as stated: a read error is not counted and the walk does not
  go on. Here \<^verbatim>\<open>b.txt\<close> cannot be read: the loop ends with the \<^verbatim>\<open>OSError\<close>, no
  counter is produced, \<^verbatim>\<open>c.txt\<close> is never looked at, and the checksum file is
  left as it was.
\<close>

theorem read_error_counted_counterexample:
  "sync_loop md5_of_empty requests_raise_for_status
       [regular [''b.txt''] (Inl OSError) (Response 200), regular [''c.txt''] (Inr []) (Response 200)]
       (\<lparr>old_checksums = example_old, new_checksums = []\<rparr>, no_counts) = Inl OSError
   \<and> detect_and_upload utf8 Readable md5_of_empty requests_raise_for_status example_store
       [regular [''b.txt''] (Inl OSError) (Response 200), regular [''c.txt''] (Inr []) (Response 200)]
       NoFault = (Inl OSError, example_store)"
  by (simp add: detect_and_upload_def example_tracker) (simp add: run_defs str_of_def)

text \<open>
  C3, as the code has it. Nothing in the loop of \<^verbatim>\<open>main\<close> catches the exception
  of \<^verbatim>\<open>get_checksum\<close>. When a visited file cannot be read, the exception escapes
  the loop at that file: no counter is incremented for it, the files after it
  are not processed, \<^verbatim>\<open>save\<close> is not reached, so that no checksum is recorded or
  persisted for that path and the checksum file is left as it was, and the
  process exits with a non-zero code.
\<close>

theorem read_error_aborts_walk:
  assumes "ChecksumTracker cd rf sf = Inr t0"
    and "sync_loop md5 rfs before (t0, no_counts) = Inr st"
    and "visited f" and "content f = Inl e"
  shows "sync_file md5 rfs f st = Inl e
     \<and> sync_loop md5 rfs (before @ f # after) (t0, no_counts) = Inl e
     \<and> detect_and_upload cd rf md5 rfs sf (before @ f # after) flt = (Inl e, sf)
     \<and> exit_code (fst (main md5 rfs
          \<lparr>locale_codec = cd, environ = env, log_fault = lg, folder_exists = ex, git_runs = git,
           store_read = rf, checksum_file = sf, tree = before @ f # after, fault = flt\<rparr>)) \<noteq> 0
     \<and> snd (main md5 rfs
          \<lparr>locale_codec = cd, environ = env, log_fault = lg, folder_exists = ex, git_runs = git,
           store_read = rf, checksum_file = sf, tree = before @ f # after, fault = flt\<rparr>) = sf"
proof -
  have step: "sync_file md5 rfs f st = Inl e"
    using assms(3,4) by (rule sync_file_read_error)
  have loop: "sync_loop md5 rfs (before @ f # after) (t0, no_counts) = Inl e"
    using assms(2) step by (simp add: sync_loop_append)
  have run: "detect_and_upload cd rf md5 rfs sf (before @ f # after) flt = (Inl e, sf)"
    using loop assms(1) by (simp add: detect_and_upload_def)
  show ?thesis
    using step loop run by (simp add: main_def exit_code_def split: sum.splits)
qed

theorem read_error_aborts_walk_witness:
  "ChecksumTracker utf8 Readable example_store = Inr \<lparr>old_checksums = example_old, new_checksums = []\<rparr>
   \<and> sync_loop md5_of_empty requests_raise_for_status [regular [''d.txt''] (Inr []) (Response 200)]
       (\<lparr>old_checksums = example_old, new_checksums = []\<rparr>, no_counts)
     = Inr (\<lparr>old_checksums = example_old, new_checksums = [(str_of ''d.txt'', d41d)]\<rparr>,
            \<lparr>uploaded = 1, skipped = 0, failed = 0\<rparr>)
   \<and> visited (regular [''b.txt''] (Inl OSError) (Response 200))
   \<and> content (regular [''b.txt''] (Inl OSError) (Response 200)) = Inl OSError
   \<and> detect_and_upload utf8 Readable md5_of_empty requests_raise_for_status example_store
        ([regular [''d.txt''] (Inr []) (Response 200)] @ regular [''b.txt''] (Inl OSError) (Response 200)
          # [regular [''c.txt''] (Inr []) (Response 200)]) NoFault
      = (Inl OSError, example_store)"
proof -
  have a: "sync_loop md5_of_empty requests_raise_for_status [regular [''d.txt''] (Inr []) (Response 200)]
       (\<lparr>old_checksums = example_old, new_checksums = []\<rparr>, no_counts)
     = Inr (\<lparr>old_checksums = example_old, new_checksums = [(str_of ''d.txt'', d41d)]\<rparr>,
            \<lparr>uploaded = 1, skipped = 0, failed = 0\<rparr>)"
    by (simp add: run_defs example_old_def str_of_def)
  have b: "visited (regular [''b.txt''] (Inl OSError) (Response 200))"
    by (simp add: visited_def regular_def str_of_def)
  have c: "content (regular [''b.txt''] (Inl OSError) (Response 200)) = Inl OSError"
    by (simp add: regular_def)
  show ?thesis
    using a b c example_tracker
      read_error_aborts_walk [OF example_tracker a b c,
        of "[regular [''c.txt''] (Inr []) (Response 200)]" NoFault]
    by simp
qed

text \<open>
  C4 does not hold as stated: when the local file cannot be read,
  \<^verbatim>\<open>upload_file\<close> does not return \<^verbatim>\<open>False\<close>; the \<^verbatim>\<open>OSError\<close> escapes it.
\<close>

theorem upload_read_error_counterexample:
  "upload_file requests_raise_for_status (Inl OSError) (Response 200) = Inl OSError
   \<and> upload_file requests_raise_for_status (Inl OSError) (Response 200) \<noteq> Inr False"
  by (simp add: upload_file_def)

text \<open>
  C4, as the code has it. \<^verbatim>\<open>upload_file\<close> returns \<^verbatim>\<open>False\<close> when \<^verbatim>\<open>requests.put\<close>
  raises a \<^verbatim>\<open>RequestException\<close> and when \<^verbatim>\<open>raise_for_status\<close> rejects the status of
  the response, and \<^verbatim>\<open>True\<close> for a status it accepts. An error of reading the
  local file, and an exception of \<^verbatim>\<open>requests.put\<close> that is not a
  \<^verbatim>\<open>RequestException\<close>, are not caught: they leave \<^verbatim>\<open>upload_file\<close> as exceptions.
\<close>

theorem upload_file_outcomes:
  "upload_file rfs (Inr bs) RequestError = Inr False
   \<and> (rfs status \<longrightarrow> upload_file rfs (Inr bs) (Response status) = Inr False)
   \<and> (\<not> rfs status \<longrightarrow> upload_file rfs (Inr bs) (Response status) = Inr True)
   \<and> upload_file rfs (Inl e) put = Inl e
   \<and> upload_file rfs (Inr bs) (Raises e) = Inl e"
  by (simp add: upload_file_def)

theorem upload_file_outcomes_witness:
  "requests_raise_for_status 404
   \<and> upload_file requests_raise_for_status (Inr (str_of ''select 1'')) (Response 404) = Inr False
   \<and> \<not> requests_raise_for_status 200
   \<and> upload_file requests_raise_for_status (Inr (str_of ''select 1'')) (Response 200) = Inr True"
  using upload_file_outcomes [of requests_raise_for_status "str_of ''select 1''" 404]
    upload_file_outcomes [of requests_raise_for_status "str_of ''select 1''" 200]
  by (simp add: requests_raise_for_status_def)




text \<open>
  C6 does not hold for every successful run, the store being what \<^verbatim>\<open>_load\<close> reads
  from the file. The previous store has the path \<^verbatim>\<open>x\<close>; the walk visits the one
  file \<^verbatim>\<open>x=y\<close>; the run succeeds and writes the line \<^verbatim>\<open>x=y=d41d...\<close>, which is read
  back as the path \<^verbatim>\<open>x\<close> with the checksum \<^verbatim>\<open>y=d41d...\<close>. So the store read back is
  not \<^verbatim>\<open>new_checksums\<close>, its paths are not the visited ones, and the path \<^verbatim>\<open>x\<close>,
  absent from the walk, is in it.
\<close>

theorem persisted_store_counterexample:
  "load utf8 Readable (Some (store_line (str_of ''x'', d41d))) = Inr [(str_of ''x'', d41d)]
   \<and> visited (regular [''x=y''] (Inr []) (Response 200))
   \<and> relative_path (regular [''x=y''] (Inr []) (Response 200)) = str_of ''x=y''
   \<and> detect_and_upload utf8 Readable md5_of_empty requests_raise_for_status
       (Some (store_line (str_of ''x'', d41d))) [regular [''x=y''] (Inr []) (Response 200)] NoFault
     = (Inr \<lparr>uploaded = 1, skipped = 0, failed = 0\<rparr>, Some (store_line (str_of ''x=y'', d41d)))
   \<and> load utf8 Readable (Some (store_line (str_of ''x=y'', d41d)))
     = Inr [(str_of ''x'', str_of ''y='' @ d41d)]"
proof -
  have "encode utf8 (concat (map store_line [(str_of ''x'', d41d)]))
      = Some (store_line (str_of ''x'', d41d))"
    using ascii_d41d encode_utf8_ascii [of "store_line (str_of ''x'', d41d)"]
    by (auto simp: text_defs)
  moreover have "clean_dict [(str_of ''x'', d41d)]"
    by (simp add: clean_dict_def clean_d41d)
      (simp add: clean_path_def no_newline_def no_outer_space_def py_isspace_def text_defs)
  ultimately have old: "load utf8 Readable (Some (store_line (str_of ''x'', d41d))) = Inr [(str_of ''x'', d41d)]"
    using lossless_utf8 by (intro load_saved) simp_all
  have fresh: "map_of [(str_of ''x'', d41d)] (str_of ''x=y'') = None"
    by (simp add: str_of_def)
  have v: "visited (regular [''x=y''] (Inr []) (Response 200))"
    "relative_path (regular [''x=y''] (Inr []) (Response 200)) = str_of ''x=y''"
    by (simp_all add: visited_def regular_def str_of_def)
  show ?thesis
    using old v equals_path_first_run [OF old fresh] equals_path_read_back by simp
qed

text \<open>
  C6, as the code has it. After a successful run (the walk and \<^verbatim>\<open>save\<close> end without
  an exception) the checksum file holds the encoded lines of \<^verbatim>\<open>new_checksums\<close>, one
  per entry and in order; the keys of \<^verbatim>\<open>new_checksums\<close> are distinct and are
  exactly the relative paths of the visited files, so a path of
  \<^verbatim>\<open>old_checksums\<close> that the walk did not visit is not among them. Read back by
  \<^verbatim>\<open>_load\<close> (the file can be opened), it gives exactly \<^verbatim>\<open>new_checksums\<close>, provided
  every visited path
  is non-empty, free of \<^verbatim>\<open>=\<close> and of newlines, with no whitespace at either end,
  every digest is free of newlines with no whitespace at either end (a hex
  digest is), and the codec decodes what it encoded.
\<close>

theorem persisted_store_is_pending:
  assumes run: "detect_and_upload cd rf md5 rfs sf files flt = (Inr c, sf')"
  shows "\<exists>old t bs. load cd rf sf = Inr old
      \<and> sync_loop md5 rfs files (\<lparr>old_checksums = old, new_checksums = []\<rparr>, no_counts) = Inr (t, c)
      \<and> encode cd (concat (map store_line (new_checksums t))) = Some bs \<and> sf' = Some bs
      \<and> distinct (map fst (new_checksums t))
      \<and> fst ` set (new_checksums t) = relative_path ` {f \<in> set files. visited f}
      \<and> (\<forall>p \<in> fst ` set old. p \<notin> relative_path ` {f \<in> set files. visited f}
            \<longrightarrow> p \<notin> fst ` set (new_checksums t))
      \<and> (lossless cd \<and> (\<forall>f \<in> set files. visited f \<longrightarrow> clean_path (relative_path f))
           \<and> (\<forall>b. clean_checksum (md5 b)) \<longrightarrow> load cd Readable sf' = Inr (new_checksums t))"
proof -
  from run obtain old t bs where old: "load cd rf sf = Inr old"
    and loop: "sync_loop md5 rfs files (\<lparr>old_checksums = old, new_checksums = []\<rparr>, no_counts) = Inr (t, c)"
    and enc: "encode cd (concat (map store_line (new_checksums t))) = Some bs"
    and persisted: "sf' = Some bs"
    by (rule detect_and_upload_InrE)
  note pending = walk_pending [OF loop]
  have reread: "load cd Readable sf' = Inr (new_checksums t)"
    if "lossless cd" "\<forall>f \<in> set files. visited f \<longrightarrow> clean_path (relative_path f)"
      "\<forall>b. clean_checksum (md5 b)"
    unfolding persisted using that(1) enc pending(4) [OF that(2,3)] pending(2) by (rule load_saved)
  show ?thesis
    using old loop enc persisted pending(2,3) reread by (intro exI [of _ old] exI [of _ t] exI [of _ bs]) simp
qed

theorem persisted_store_is_pending_witness:
  "detect_and_upload utf8 Readable md5_of_empty requests_raise_for_status example_store example_tree NoFault
     = (Inr \<lparr>uploaded = 1, skipped = 1, failed = 2\<rparr>, example_saved)
   \<and> load utf8 Readable example_store = Inr example_old
   \<and> str_of ''gone.sql'' \<in> fst ` set example_old
   \<and> str_of ''gone.sql'' \<notin> relative_path ` {f \<in> set example_tree. visited f}
   \<and> (\<exists>pending. load utf8 Readable example_saved = Inr pending
         \<and> fst ` set pending = relative_path ` {f \<in> set example_tree. visited f}
         \<and> str_of ''gone.sql'' \<notin> fst ` set pending)"
proof -
  have old: "str_of ''gone.sql'' \<in> fst ` set example_old"
    by (simp add: example_old_def)
  have gone: "str_of ''gone.sql'' \<notin> relative_path ` {f \<in> set example_tree. visited f}"
    by (auto simp: example_tree_def regular_def str_of_def)
  have "\<exists>pending. load utf8 Readable example_saved = Inr pending
         \<and> fst ` set pending = relative_path ` {f \<in> set example_tree. visited f}
         \<and> str_of ''gone.sql'' \<notin> fst ` set pending"
    using persisted_store_is_pending [OF example_run]
  proof (elim exE conjE, goal_cases)
    case (1 old t bs)
    have "load utf8 Readable example_saved = Inr (new_checksums t)"
      using 1(8) lossless_utf8 example_tree_clean clean_md5_of_empty by (elim impE) (intro conjI)
    then show ?case
      using 1(6) gone by (intro exI [of _ "new_checksums t"]) (simp only: simp_thms)
  qed
  then show ?thesis
    using example_run example_load old gone
    by simp
qed













end
